theory Spec2Isabelle
  imports Complex_Main "HOL-Library.Word" "HOL-Library.AList"
begin

section \<open>Data model (pkg/filecache/cache.go)\<close>

text \<open>
  Go's \<^verbatim>\<open>string\<close> and \<^verbatim>\<open>[]byte\<close> are both sequences of bytes, and the conversions
  between them in the source copy the bytes unchanged; both are modelled as lists of
  8-bit characters. \<^verbatim>\<open>int64\<close> is a 64-bit word read as two's complement, so the
  counters wrap around exactly as in Go. A \<^verbatim>\<open>time.Time\<close> is the integer number of
  nanoseconds of its instant, \<^verbatim>\<open>t.After(u)\<close> is \<open>u < t\<close>, and a \<^verbatim>\<open>time.Duration\<close>
  is the \<^verbatim>\<open>int64\<close> it is in Go. \<^verbatim>\<open>float64\<close> is idealised as \<open>real\<close>: rounding
  is not modelled.
\<close>

type_synonym bytes = string
type_synonym int64 = "64 word"
type_synonym Time = int
type_synonym Duration = int64

definition Add :: "Time \<Rightarrow> Duration \<Rightarrow> Time" where
  "Add t d = t + sint d"

definition After :: "Time \<Rightarrow> Time \<Rightarrow> bool" where
  "After t u = (u < t)"

record FileInfo =
  Key :: string
  Size :: int64
  MimeType :: string
  CreatedAt :: Time
  ExpiresAt :: Time
  AccessCount :: int64
  LastAccess :: Time

record Stats =
  TotalFiles :: int64
  TotalSize :: int64
  HitRate :: real
  MissRate :: real
  ExpiredFiles :: int64
  LastCleanup :: Time

record Config =
  DataDir :: string
  MaxCacheSize :: int64
  DefaultTTL :: Duration
  CleanupInterval :: Duration
  Compression :: bool

text \<open>The zero value \<^verbatim>\<open>Stats{}\<close> that a new cache starts with.\<close>

definition Stats_zero :: Stats where
  "Stats_zero = \<lparr>TotalFiles = 0, TotalSize = 0, HitRate = 0, MissRate = 0,
                  ExpiredFiles = 0, LastCleanup = 0\<rparr>"

text \<open>
  Every error value the package can return. \<open>ErrKeyNotFound\<close> is
  \<^verbatim>\<open>badger.ErrKeyNotFound\<close>, \<open>StoreFailure\<close> any other error of the store,
  \<open>JSONFailure\<close> an error of \<^verbatim>\<open>encoding/json\<close>; \<open>Errorf m\<close> is
  \<^verbatim>\<open>fmt.Errorf(m)\<close>, \<open>Wrapf m e\<close> is \<^verbatim>\<open>fmt.Errorf(m + ": %w", e)\<close> and
  \<open>FileSizeExceeds n m\<close> is
  \<^verbatim>\<open>fmt.Errorf("file size %d exceeds max cache size %d", n, m)\<close>.
\<close>

datatype error =
  ErrKeyNotFound
  | StoreFailure
  | JSONFailure
  | Errorf string
  | Wrapf string error
  | FileSizeExceeds nat int64

section \<open>The external collaborators\<close>

subsection \<open>The key-value store\<close>

text \<open>
  The Badger database is outside the repository. It is modelled by what the cache can
  observe of it: the stored pairs in iteration order, and the storage keys on which
  the store currently answers with an error of its own (an I/O failure), which is how
  the error branches of the source become reachable. A read-write transaction
  (\<^verbatim>\<open>db.Update\<close>) commits all of its writes or, when its body returns an error, none;
  deleting an absent key is not an error in Badger.
\<close>

record DB =
  items :: "(string \<times> bytes) list"
  failing :: "string list"

definition txn_Get :: "DB \<Rightarrow> string \<Rightarrow> error + bytes" where
  "txn_Get d k =
     (if k \<in> set (failing d) then Inl StoreFailure
      else case map_of (items d) k of
             None \<Rightarrow> Inl ErrKeyNotFound
           | Some v \<Rightarrow> Inr v)"

definition txn_Set :: "string \<Rightarrow> bytes \<Rightarrow> DB \<Rightarrow> error + DB" where
  "txn_Set k v d =
     (if k \<in> set (failing d) then Inl StoreFailure
      else Inr (d\<lparr>items := AList.update k v (items d)\<rparr>))"

definition txn_Delete :: "string \<Rightarrow> DB \<Rightarrow> error + DB" where
  "txn_Delete k d =
     (if k \<in> set (failing d) then Inl StoreFailure
      else Inr (d\<lparr>items := AList.delete k (items d)\<rparr>))"

definition item_Value :: "DB \<Rightarrow> string \<Rightarrow> bytes \<Rightarrow> error + bytes" where
  "item_Value d k v = (if k \<in> set (failing d) then Inl StoreFailure else Inr v)"

definition db_Update :: "(DB \<Rightarrow> error + DB) \<Rightarrow> DB \<Rightarrow> error option \<times> DB" where
  "db_Update body d =
     (case body d of
        Inl e \<Rightarrow> (Some e, d)
      | Inr d' \<Rightarrow> (None, d'))"

subsection \<open>The JSON codec\<close>

text \<open>
  \<^verbatim>\<open>encoding/json\<close> is outside the repository as well. The functions below take it
  as a parameter: how a metadata record and the statistics are encoded, and how a
  stored value is decoded (\<open>None\<close> is an error of the codec). Nothing is assumed
  about it; a theorem that needs a decoded record to be the encoded one says so.
\<close>

record json =
  Marshal_FileInfo :: "FileInfo \<Rightarrow> bytes option"
  Unmarshal_FileInfo :: "bytes \<Rightarrow> FileInfo option"
  Marshal_Stats :: "Stats \<Rightarrow> bytes option"

section \<open>The cache (pkg/filecache/badger\_cache.go, stats.go)\<close>

definition fileDataPrefix :: string where
  "fileDataPrefix = ''file:''"

definition fileInfoPrefix :: string where
  "fileInfoPrefix = ''info:''"

definition statsKey :: string where
  "statsKey = ''stats''"

text \<open>The lock \<^verbatim>\<open>mu\<close> is left out: the operations are run one after another.\<close>

record badgerCache =
  db :: DB
  config :: Config
  stats :: Stats

subsection \<open>Statistics (stats.go)\<close>

definition saveStats :: "json \<Rightarrow> badgerCache \<Rightarrow> error option \<times> badgerCache" where
  "saveStats J c =
     (case Marshal_Stats J (stats c) of
        None \<Rightarrow> (Some JSONFailure, c)
      | Some statsBytes \<Rightarrow>
          (case db_Update (txn_Set statsKey statsBytes) (db c) of
             (err, d) \<Rightarrow> (err, c\<lparr>db := d\<rparr>)))"

definition updateStatsAfterSet :: "int64 \<Rightarrow> badgerCache \<Rightarrow> badgerCache" where
  "updateStatsAfterSet sz c =
     c\<lparr>stats := (stats c)\<lparr>TotalFiles := TotalFiles (stats c) + 1,
                            TotalSize := TotalSize (stats c) + sz\<rparr>\<rparr>"

definition updateStatsAfterDelete :: "int64 \<Rightarrow> badgerCache \<Rightarrow> badgerCache" where
  "updateStatsAfterDelete sz c =
     (let s = stats c;
          s1 = (if 0 <s TotalFiles s then s\<lparr>TotalFiles := TotalFiles s - 1\<rparr> else s);
          s2 = (if sz \<le>s TotalSize s1 then s1\<lparr>TotalSize := TotalSize s1 - sz\<rparr> else s1)
      in c\<lparr>stats := s2\<rparr>)"

definition updateStatsAfterHit :: "badgerCache \<Rightarrow> badgerCache" where
  "updateStatsAfterHit c =
     (let s = stats c;
          total = HitRate s + MissRate s
      in if total = 0 then c\<lparr>stats := s\<lparr>HitRate := 1, MissRate := 0\<rparr>\<rparr>
         else
           (let s1 = s\<lparr>HitRate := (HitRate s * total + 1) / (total + 1)\<rparr>;
                s2 = s1\<lparr>MissRate := 1 - HitRate s1\<rparr>
            in c\<lparr>stats := s2\<rparr>))"

definition updateStatsAfterMiss :: "badgerCache \<Rightarrow> badgerCache" where
  "updateStatsAfterMiss c =
     (let s = stats c;
          total = HitRate s + MissRate s
      in if total = 0 then c\<lparr>stats := s\<lparr>HitRate := 0, MissRate := 1\<rparr>\<rparr>
         else
           (let s1 = s\<lparr>MissRate := (MissRate s * total + 1) / (total + 1)\<rparr>;
                s2 = s1\<lparr>HitRate := 1 - MissRate s1\<rparr>
            in c\<lparr>stats := s2\<rparr>))"

text \<open>
  \<open>updateFileAccess\<close> changes the record it is given through the pointer, before it
  tries to write it back: the changed record is returned together with the cache.
  A failure to encode or to write is ignored, as in the source.
\<close>

definition updateFileAccess ::
  "json \<Rightarrow> string \<Rightarrow> FileInfo \<Rightarrow> Time \<Rightarrow> badgerCache \<Rightarrow> FileInfo \<times> badgerCache" where
  "updateFileAccess J key fileInfo now c =
     (let fileInfo' = fileInfo\<lparr>AccessCount := AccessCount fileInfo + 1, LastAccess := now\<rparr>
      in case Marshal_FileInfo J fileInfo' of
           None \<Rightarrow> (fileInfo', c)
         | Some infoBytes \<Rightarrow>
             (fileInfo', c\<lparr>db := snd (db_Update (txn_Set (fileInfoPrefix @ key) infoBytes) (db c))\<rparr>))"

subsection \<open>Set\<close>

text \<open>
  The reader \<^verbatim>\<open>data\<close> is given by what \<^verbatim>\<open>io.ReadAll\<close> makes of it, an error or the
  bytes; \<open>now\<close> is the value of \<^verbatim>\<open>time.Now()\<close>. A Go slice has fewer than \<open>2^63\<close>
  elements, so \<^verbatim>\<open>int64(len(dataBytes))\<close> is the length itself and the size check
  compares the two numbers.
\<close>

definition Set_txn :: "string \<Rightarrow> bytes \<Rightarrow> bytes \<Rightarrow> DB \<Rightarrow> error + DB" where
  "Set_txn key dataBytes infoBytes d =
     (case txn_Set (fileDataPrefix @ key) dataBytes d of
        Inl err \<Rightarrow> Inl err
      | Inr d1 \<Rightarrow> txn_Set (fileInfoPrefix @ key) infoBytes d1)"

definition Set ::
  "json \<Rightarrow> badgerCache \<Rightarrow> string \<Rightarrow> error + bytes \<Rightarrow> string \<Rightarrow> Duration \<Rightarrow> Time
     \<Rightarrow> error option \<times> badgerCache" where
  "Set J c key data mimeType ttl0 now =
     (let ttl = (if ttl0 \<le>s 0 then DefaultTTL (config c) else ttl0)
      in case data of
           Inl err \<Rightarrow> (Some (Wrapf ''failed to read data'' err), c)
         | Inr dataBytes \<Rightarrow>
             if sint (MaxCacheSize (config c)) < int (length dataBytes)
             then (Some (FileSizeExceeds (length dataBytes) (MaxCacheSize (config c))), c)
             else
               (let expiresAt = Add now ttl;
                    fileInfo = \<lparr>Key = key, Size = of_nat (length dataBytes),
                                MimeType = mimeType, CreatedAt = now, ExpiresAt = expiresAt,
                                AccessCount = 0, LastAccess = now\<rparr>
                in case Marshal_FileInfo J fileInfo of
                     None \<Rightarrow> (Some (Wrapf ''failed to marshal file info'' JSONFailure), c)
                   | Some infoBytes \<Rightarrow>
                       (case db_Update (Set_txn key dataBytes infoBytes) (db c) of
                          (Some err, d) \<Rightarrow> (Some (Wrapf ''failed to store file'' err), c\<lparr>db := d\<rparr>)
                        | (None, d) \<Rightarrow>
                            (None, updateStatsAfterSet (of_nat (length dataBytes)) (c\<lparr>db := d\<rparr>)))))"

subsection \<open>Get\<close>

text \<open>
  The body of the read transaction of \<open>Get\<close>. \<open>now\<close> is the \<^verbatim>\<open>time.Now()\<close> of the
  expiry check.
\<close>

definition Get_view :: "json \<Rightarrow> DB \<Rightarrow> string \<Rightarrow> Time \<Rightarrow> error + (bytes \<times> FileInfo)" where
  "Get_view J d key now =
     (case txn_Get d (fileInfoPrefix @ key) of
        Inl err \<Rightarrow> Inl err
      | Inr val \<Rightarrow>
          (case Unmarshal_FileInfo J val of
             None \<Rightarrow> Inl JSONFailure
           | Some fileInfo \<Rightarrow>
               if After now (ExpiresAt fileInfo) then Inl (Errorf ''file expired'')
               else
                 (case txn_Get d (fileDataPrefix @ key) of
                    Inl err \<Rightarrow> Inl err
                  | Inr dataVal \<Rightarrow> Inr (dataVal, fileInfo))))"

text \<open>
  \<open>Get\<close> reads the clock twice: \<open>now\<close> for the expiry check and \<open>now'\<close> in
  \<open>updateFileAccess\<close>. The result is the error, or the bytes of the reader together
  with the record behind the returned pointer.
\<close>

definition Get ::
  "json \<Rightarrow> badgerCache \<Rightarrow> string \<Rightarrow> Time \<Rightarrow> Time
     \<Rightarrow> (error + (bytes \<times> FileInfo)) \<times> badgerCache" where
  "Get J c key now now' =
     (case Get_view J (db c) key now of
        Inl err \<Rightarrow>
          if err = ErrKeyNotFound
          then (Inl (Errorf ''file not found''), updateStatsAfterMiss c)
          else (Inl err, c)
      | Inr (data, fileInfo) \<Rightarrow>
          (case updateFileAccess J key fileInfo now' (updateStatsAfterHit c) of
             (fileInfo', c') \<Rightarrow> (Inr (data, fileInfo'), c')))"

subsection \<open>Exists, GetInfo\<close>

definition Exists :: "badgerCache \<Rightarrow> string \<Rightarrow> bool \<times> error option" where
  "Exists c key =
     (case txn_Get (db c) (fileInfoPrefix @ key) of
        Inl err \<Rightarrow> if err = ErrKeyNotFound then (False, None) else (False, Some err)
      | Inr val \<Rightarrow> (True, None))"

definition GetInfo :: "json \<Rightarrow> badgerCache \<Rightarrow> string \<Rightarrow> error + FileInfo" where
  "GetInfo J c key =
     (case txn_Get (db c) (fileInfoPrefix @ key) of
        Inl err \<Rightarrow> Inl err
      | Inr val \<Rightarrow>
          (case Unmarshal_FileInfo J val of
             None \<Rightarrow> Inl JSONFailure
           | Some fileInfo \<Rightarrow> Inr (fileInfo\<lparr>Key := key\<rparr>)))"

subsection \<open>Delete\<close>

text \<open>
  The read transaction of \<open>Delete\<close>, and what \<open>Delete\<close> does once it has passed:
  \<^verbatim>\<open>fileInfo\<close> is still \<^verbatim>\<open>nil\<close> (\<open>None\<close>) when the metadata key was not found,
  which is not an error for \<open>Delete\<close>.
\<close>

definition Delete_view :: "json \<Rightarrow> DB \<Rightarrow> string \<Rightarrow> error + FileInfo" where
  "Delete_view J d key =
     (case txn_Get d (fileInfoPrefix @ key) of
        Inl err \<Rightarrow> Inl err
      | Inr val \<Rightarrow>
          (case Unmarshal_FileInfo J val of
             None \<Rightarrow> Inl JSONFailure
           | Some fileInfo \<Rightarrow> Inr fileInfo))"

definition Delete_txn :: "string \<Rightarrow> DB \<Rightarrow> error + DB" where
  "Delete_txn key d =
     (case txn_Delete (fileDataPrefix @ key) d of
        Inl err \<Rightarrow> Inl err
      | Inr d1 \<Rightarrow> txn_Delete (fileInfoPrefix @ key) d1)"

definition Delete_commit ::
  "badgerCache \<Rightarrow> string \<Rightarrow> FileInfo option \<Rightarrow> error option \<times> badgerCache" where
  "Delete_commit c key fileInfo =
     (case db_Update (Delete_txn key) (db c) of
        (Some err, d) \<Rightarrow> (Some (Wrapf ''failed to delete file'' err), c\<lparr>db := d\<rparr>)
      | (None, d) \<Rightarrow>
          (case fileInfo of
             None \<Rightarrow> (None, c\<lparr>db := d\<rparr>)
           | Some fi \<Rightarrow> (None, updateStatsAfterDelete (Size fi) (c\<lparr>db := d\<rparr>))))"

definition Delete :: "json \<Rightarrow> badgerCache \<Rightarrow> string \<Rightarrow> error option \<times> badgerCache" where
  "Delete J c key =
     (case Delete_view J (db c) key of
        Inl err \<Rightarrow>
          if err \<noteq> ErrKeyNotFound then (Some err, c)
          else Delete_commit c key None
      | Inr fileInfo \<Rightarrow> Delete_commit c key (Some fileInfo))"

subsection \<open>List\<close>

text \<open>
  The iterator loop of \<open>List\<close> over the stored pairs, with the slice \<^verbatim>\<open>files\<close> built
  so far. On an error the loop stops and \<open>List\<close> returns the error together with the
  slice as it is.
\<close>

fun List_loop ::
  "json \<Rightarrow> DB \<Rightarrow> (string \<times> bytes) list \<Rightarrow> FileInfo list \<Rightarrow> FileInfo list \<times> error option" where
  "List_loop J d [] files = (files, None)"
| "List_loop J d ((key, v) # rest) files =
     (if length key > length fileInfoPrefix \<and> take (length fileInfoPrefix) key = fileInfoPrefix
      then
        (let fileKey = drop (length fileInfoPrefix) key
         in case item_Value d key v of
              Inl err \<Rightarrow> (files, Some err)
            | Inr val \<Rightarrow>
                (case Unmarshal_FileInfo J val of
                   None \<Rightarrow> (files, Some JSONFailure)
                 | Some fileInfo \<Rightarrow> List_loop J d rest (files @ [fileInfo\<lparr>Key := fileKey\<rparr>])))
      else List_loop J d rest files)"

definition List :: "json \<Rightarrow> badgerCache \<Rightarrow> FileInfo list \<times> error option" where
  "List J c = List_loop J (db c) (items (db c)) []"

subsection \<open>Cleanup\<close>

text \<open>
  The iterator loop of \<open>Cleanup\<close>, with \<^verbatim>\<open>expiredFiles\<close> and \<^verbatim>\<open>totalSize\<close> as
  collected so far.
\<close>

fun Cleanup_loop ::
  "json \<Rightarrow> DB \<Rightarrow> Time \<Rightarrow> (string \<times> bytes) list \<Rightarrow> string list \<times> int64
     \<Rightarrow> error + (string list \<times> int64)" where
  "Cleanup_loop J d now [] acc = Inr acc"
| "Cleanup_loop J d now ((key, v) # rest) (expiredFiles, totalSize) =
     (if length key > length fileInfoPrefix \<and> take (length fileInfoPrefix) key = fileInfoPrefix
      then
        (let fileKey = drop (length fileInfoPrefix) key
         in case item_Value d key v of
              Inl err \<Rightarrow> Inl err
            | Inr val \<Rightarrow>
                (case Unmarshal_FileInfo J val of
                   None \<Rightarrow> Inl JSONFailure
                 | Some fileInfo \<Rightarrow>
                     if After now (ExpiresAt fileInfo)
                     then Cleanup_loop J d now rest
                            (expiredFiles @ [fileKey], totalSize + Size fileInfo)
                     else Cleanup_loop J d now rest (expiredFiles, totalSize)))
      else Cleanup_loop J d now rest (expiredFiles, totalSize))"

text \<open>The second loop of \<open>Cleanup\<close>: each expired key is deleted, an error is skipped.\<close>

fun Cleanup_delete :: "json \<Rightarrow> string list \<Rightarrow> badgerCache \<Rightarrow> badgerCache" where
  "Cleanup_delete J [] c = c"
| "Cleanup_delete J (fileKey # rest) c = Cleanup_delete J rest (snd (Delete J c fileKey))"

definition Cleanup :: "json \<Rightarrow> badgerCache \<Rightarrow> Time \<Rightarrow> error option \<times> badgerCache" where
  "Cleanup J c now =
     (case Cleanup_loop J (db c) now (items (db c)) ([], 0) of
        Inl err \<Rightarrow> (Some err, c)
      | Inr (expiredFiles, totalSize) \<Rightarrow>
          (let c1 = Cleanup_delete J expiredFiles c;
               c2 = c1\<lparr>stats := (stats c1)\<lparr>ExpiredFiles := of_nat (length expiredFiles),
                                             LastCleanup := now\<rparr>\<rparr>
           in (None, snd (saveStats J c2))))"

section \<open>Sequences of operations\<close>

text \<open>
  A call of the facade with its arguments, the clock readings included, and the cache
  after a sequence of calls made one after another.
\<close>

datatype op =
  OpSet string "error + bytes" string Duration Time
  | OpGet string Time Time
  | OpDelete string
  | OpCleanup Time

fun apply_op :: "json \<Rightarrow> badgerCache \<Rightarrow> op \<Rightarrow> badgerCache" where
  "apply_op J c (OpSet key data mimeType ttl now) = snd (Set J c key data mimeType ttl now)"
| "apply_op J c (OpGet key now now') = snd (Get J c key now now')"
| "apply_op J c (OpDelete key) = snd (Delete J c key)"
| "apply_op J c (OpCleanup now) = snd (Cleanup J c now)"

definition run :: "json \<Rightarrow> badgerCache \<Rightarrow> op list \<Rightarrow> badgerCache" where
  "run J c ops = foldl (apply_op J) c ops"







text \<open>
  The invariant of the data model: the store holds a payload record for a key exactly
  when it holds a metadata record for it.
\<close>

definition paired :: "DB \<Rightarrow> bool" where
  "paired d =
     (\<forall>key. (map_of (items d) (fileDataPrefix @ key) = None)
             = (map_of (items d) (fileInfoPrefix @ key) = None))"


section \<open>The running average as the specification words it\<close>

text \<open>
  The update of the pair \<open>(hitRate, missRate)\<close> on a hit and on a miss, written from
  the specification: with \<open>total = hitRate + missRate\<close>, the pair becomes \<open>(1, 0)\<close> on a
  hit and \<open>(0, 1)\<close> on a miss when \<open>total\<close> is zero; otherwise a hit gives
  \<open>hitRate' = (hitRate * total + 1) / (total + 1)\<close> and \<open>missRate' = 1 - hitRate'\<close>,
  and a miss the same with the two rates exchanged.
\<close>

definition spec_RecordHit :: "real \<times> real \<Rightarrow> real \<times> real" where
  "spec_RecordHit r =
     (case r of (hitRate, missRate) \<Rightarrow>
        (let total = hitRate + missRate
         in if total = 0 then (1, 0)
            else (let hitRate' = (hitRate * total + 1) / (total + 1);
                      missRate' = 1 - hitRate'
                  in (hitRate', missRate'))))"

definition spec_RecordMiss :: "real \<times> real \<Rightarrow> real \<times> real" where
  "spec_RecordMiss r =
     (case r of (hitRate, missRate) \<Rightarrow>
        (let total = hitRate + missRate
         in if total = 0 then (0, 1)
            else (let missRate' = (missRate * total + 1) / (total + 1);
                      hitRate' = 1 - missRate'
                  in (hitRate', missRate'))))"

section \<open>A codec to run the cache with\<close>

text \<open>
  The examples below need some codec in the place of \<^verbatim>\<open>encoding/json\<close>. This one
  writes a record as its fields in order, each as a netstring (the length in decimal,
  a colon, the bytes, a comma), numbers in decimal. It fails on a value that is not
  such a sequence of fields.
\<close>

fun show_nat :: "nat \<Rightarrow> string" where
  "show_nat n =
     (if n < 10 then [char_of (48 + n)]
      else show_nat (n div 10) @ [char_of (48 + n mod 10)])"

definition show_int :: "int \<Rightarrow> string" where
  "show_int i = (if i < 0 then CHR ''-'' # show_nat (nat (- i)) else show_nat (nat i))"

definition is_digit :: "char \<Rightarrow> bool" where
  "is_digit ch = (48 \<le> (of_char ch :: nat) \<and> (of_char ch :: nat) \<le> 57)"

definition read_nat :: "string \<Rightarrow> nat option" where
  "read_nat s =
     (if s \<noteq> [] \<and> list_all is_digit s
      then Some (foldl (\<lambda>a ch. 10 * a + (of_char ch - 48)) 0 s)
      else None)"

definition read_int :: "string \<Rightarrow> int option" where
  "read_int s =
     (case s of
        [] \<Rightarrow> None
      | ch # r \<Rightarrow>
          if ch = CHR ''-'' then map_option (\<lambda>n. - int n) (read_nat r)
          else map_option int (read_nat s))"

definition put_field :: "string \<Rightarrow> string" where
  "put_field s = show_nat (length s) @ CHR '':'' # s @ '',''"

definition take_field :: "string \<Rightarrow> (string \<times> string) option" where
  "take_field s =
     (let ds = takeWhile (\<lambda>ch. ch \<noteq> CHR '':'') s;
          r = drop (length ds + 1) s
      in case read_nat ds of
           None \<Rightarrow> None
         | Some n \<Rightarrow>
             if length ds < length s \<and> n < length r \<and> r ! n = CHR '',''
             then Some (take n r, drop (n + 1) r)
             else None)"

fun take_fields :: "nat \<Rightarrow> string \<Rightarrow> string list option" where
  "take_fields 0 s = (if s = [] then Some [] else None)"
| "take_fields (Suc n) s =
     (case take_field s of
        None \<Rightarrow> None
      | Some (f, r) \<Rightarrow> map_option ((#) f) (take_fields n r))"

definition netstring_Marshal_FileInfo :: "FileInfo \<Rightarrow> bytes option" where
  "netstring_Marshal_FileInfo fi =
     Some (concat (map put_field
       [Key fi, show_nat (unat (Size fi)), MimeType fi, show_int (CreatedAt fi),
        show_int (ExpiresAt fi), show_nat (unat (AccessCount fi)), show_int (LastAccess fi)]))"

definition netstring_Unmarshal_FileInfo :: "bytes \<Rightarrow> FileInfo option" where
  "netstring_Unmarshal_FileInfo b =
     (case take_fields 7 b of
        Some [k, sz, m, cr, ex, ac, la] \<Rightarrow>
          (case (read_nat sz, read_int cr, read_int ex, read_nat ac, read_int la) of
             (Some sz', Some cr', Some ex', Some ac', Some la') \<Rightarrow>
               Some \<lparr>Key = k, Size = of_nat sz', MimeType = m, CreatedAt = cr',
                     ExpiresAt = ex', AccessCount = of_nat ac', LastAccess = la'\<rparr>
           | _ \<Rightarrow> None)
      | _ \<Rightarrow> None)"

definition netstring_Marshal_Stats :: "Stats \<Rightarrow> bytes option" where
  "netstring_Marshal_Stats s =
     Some (concat (map put_field
       [show_nat (unat (TotalFiles s)), show_nat (unat (TotalSize s)),
        show_int \<lfloor>HitRate s * 1000000\<rfloor>, show_int \<lfloor>MissRate s * 1000000\<rfloor>,
        show_nat (unat (ExpiredFiles s)), show_int (LastCleanup s)]))"

definition netstring_json :: json where
  "netstring_json =
     \<lparr>Marshal_FileInfo = netstring_Marshal_FileInfo,
      Unmarshal_FileInfo = netstring_Unmarshal_FileInfo,
      Marshal_Stats = netstring_Marshal_Stats\<rparr>"

text \<open>A configuration and a new, empty cache for the examples.\<close>

definition test_config :: Config where
  "test_config =
     \<lparr>DataDir = ''./test_cache'', MaxCacheSize = 1048576, DefaultTTL = 3600,
      CleanupInterval = 60, Compression = True\<rparr>"

definition new_cache :: "Config \<Rightarrow> badgerCache" where
  "new_cache cfg = \<lparr>db = \<lparr>items = [], failing = []\<rparr>, config = cfg, stats = Stats_zero\<rparr>"

text \<open>
  The cache after \<^verbatim>\<open>Set(ctx, "a", "Hello", "text/plain", 100)\<close> at time 0 on a new
  cache: the entry expires at time 100.
\<close>

definition cache_a :: badgerCache where
  "cache_a =
     snd (Set netstring_json (new_cache test_config) ''a'' (Inr ''Hello'') ''text/plain'' 100 0)"

text \<open>
  The same cache with one more metadata record, which is not an encoded record; the
  cache after a second \<open>Set\<close>, of \<open>b\<close> at time 10 with a time-to-live of 70; and that
  cache on a store that fails on the payload key of \<open>a\<close>.
\<close>

definition cache_corrupt :: badgerCache where
  "cache_corrupt = cache_a\<lparr>db := (db cache_a)\<lparr>items := items (db cache_a) @ [(''info:bad'', ''{'')]\<rparr>\<rparr>"

definition cache_ab :: badgerCache where
  "cache_ab =
     run netstring_json (new_cache test_config)
       [OpSet ''a'' (Inr ''Hello'') ''text/plain'' 100 0,
        OpSet ''b'' (Inr ''x'') ''text/plain'' 70 10]"

definition cache_faulty :: badgerCache where
  "cache_faulty = cache_ab\<lparr>db := (db cache_ab)\<lparr>failing := [''file:a'']\<rparr>\<rparr>"

section \<open>What the JSON codec does to strings\<close>







section \<open>Auxiliary facts\<close>

subsection \<open>What a successful Get has read\<close>

lemma Get_view_Inr:
  "Get_view J d key now = Inr (data, fi) \<longleftrightarrow>
     (\<exists>val. txn_Get d (fileInfoPrefix @ key) = Inr val \<and> Unmarshal_FileInfo J val = Some fi
        \<and> \<not> After now (ExpiresAt fi) \<and> txn_Get d (fileDataPrefix @ key) = Inr data)"
  by (auto simp: Get_view_def split: sum.splits option.splits)

lemma updateFileAccess_record:
  "updateFileAccess J key fi now c = (fi2, c2) \<Longrightarrow>
     fi2 = fi\<lparr>AccessCount := AccessCount fi + 1, LastAccess := now\<rparr>"
  by (auto simp: updateFileAccess_def Let_def split: option.splits)

lemma Get_Inr:
  "Get J c key now now' = (Inr (data, fi'), c') \<Longrightarrow>
     \<exists>fi. Get_view J (db c) key now = Inr (data, fi)
        \<and> fi' = fi\<lparr>AccessCount := AccessCount fi + 1, LastAccess := now'\<rparr>"
  by (auto simp: Get_def split: sum.splits prod.splits if_splits dest: updateFileAccess_record)

subsection \<open>The storage keys, and what a successful Set has written\<close>

lemma prefixes_differ [simp]:
  "fileDataPrefix @ k \<noteq> fileInfoPrefix @ k'" "fileInfoPrefix @ k \<noteq> fileDataPrefix @ k'"
  by (simp_all add: fileDataPrefix_def fileInfoPrefix_def)

lemma prefix_consts_differ [simp]:
  "fileDataPrefix \<noteq> fileInfoPrefix" "fileInfoPrefix \<noteq> fileDataPrefix"
  by (simp_all add: fileDataPrefix_def fileInfoPrefix_def)

lemma prefixes_not_stats [simp]:
  "fileDataPrefix @ k \<noteq> statsKey" "fileInfoPrefix @ k \<noteq> statsKey"
  "statsKey \<noteq> fileDataPrefix @ k" "statsKey \<noteq> fileInfoPrefix @ k"
  by (simp_all add: fileDataPrefix_def fileInfoPrefix_def statsKey_def)

lemma prefix_inject [simp]:
  "(fileDataPrefix @ k = fileDataPrefix @ k') = (k = k')"
  "(fileInfoPrefix @ k = fileInfoPrefix @ k') = (k = k')"
  by simp_all


lemma Set_txn_Inr:
  "Set_txn key p b d = Inr d' \<longleftrightarrow>
     fileDataPrefix @ key \<notin> set (failing d) \<and> fileInfoPrefix @ key \<notin> set (failing d)
     \<and> d' = d\<lparr>items := AList.update (fileInfoPrefix @ key) b
                          (AList.update (fileDataPrefix @ key) p (items d))\<rparr>"
  by (auto simp: Set_txn_def txn_Set_def split: sum.splits)


subsection \<open>What each operation does to the store\<close>

lemma Delete_txn_Inr:
  "Delete_txn key d = Inr d' \<longleftrightarrow>
     fileDataPrefix @ key \<notin> set (failing d) \<and> fileInfoPrefix @ key \<notin> set (failing d)
     \<and> d' = d\<lparr>items := AList.delete (fileInfoPrefix @ key)
                          (AList.delete (fileDataPrefix @ key) (items d))\<rparr>"
  by (auto simp: Delete_txn_def txn_Delete_def split: sum.splits)

lemma Delete_commit_cases:
  "(fst (Delete_commit c key fio) \<noteq> None \<and> snd (Delete_commit c key fio) = c)
   \<or> (fst (Delete_commit c key fio) = None
       \<and> fileDataPrefix @ key \<notin> set (failing (db c))
       \<and> fileInfoPrefix @ key \<notin> set (failing (db c))
       \<and> snd (Delete_commit c key fio)
           = (case fio of None \<Rightarrow> (\<lambda>x. x) | Some fi \<Rightarrow> updateStatsAfterDelete (Size fi))
               (c\<lparr>db := (db c)\<lparr>items := AList.delete (fileInfoPrefix @ key)
                          (AList.delete (fileDataPrefix @ key) (items (db c)))\<rparr>\<rparr>))"
proof (cases "Delete_txn key (db c)")
  case (Inl e)
  then show ?thesis
    by (simp add: Delete_commit_def db_Update_def)
next
  case (Inr d')
  then have "fileDataPrefix @ key \<notin> set (failing (db c))"
    and "fileInfoPrefix @ key \<notin> set (failing (db c))"
    and "d' = (db c)\<lparr>items := AList.delete (fileInfoPrefix @ key)
                          (AList.delete (fileDataPrefix @ key) (items (db c)))\<rparr>"
    unfolding Delete_txn_Inr by simp_all
  with Inr show ?thesis
    by (simp add: Delete_commit_def db_Update_def split: option.splits)
qed

lemma Delete_cases:
  "(fst (Delete J c key) \<noteq> None \<and> snd (Delete J c key) = c)
   \<or> (fst (Delete J c key) = None
       \<and> fileDataPrefix @ key \<notin> set (failing (db c))
       \<and> fileInfoPrefix @ key \<notin> set (failing (db c))
       \<and> snd (Delete J c key)
           = (case Delete_view J (db c) key of
                Inl err \<Rightarrow> (\<lambda>x. x)
              | Inr fi \<Rightarrow> updateStatsAfterDelete (Size fi))
               (c\<lparr>db := (db c)\<lparr>items := AList.delete (fileInfoPrefix @ key)
                          (AList.delete (fileDataPrefix @ key) (items (db c)))\<rparr>\<rparr>))"
proof (cases "Delete_view J (db c) key")
  case (Inl err)
  then show ?thesis
    using Delete_commit_cases [of c key None]
    by (auto simp: Delete_def)
next
  case (Inr fi)
  then show ?thesis
    using Delete_commit_cases [of c key "Some fi"]
    by (auto simp: Delete_def)
qed

lemma db_updateStatsAfterDelete [simp]: "db (updateStatsAfterDelete sz c) = db c"
  by (simp add: updateStatsAfterDelete_def Let_def)

lemma db_updateStatsAfterSet [simp]: "db (updateStatsAfterSet sz c) = db c"
  by (simp add: updateStatsAfterSet_def)

lemma db_updateStatsAfterHit [simp]: "db (updateStatsAfterHit c) = db c"
  by (simp add: updateStatsAfterHit_def Let_def)

lemma db_updateStatsAfterMiss [simp]: "db (updateStatsAfterMiss c) = db c"
  by (simp add: updateStatsAfterMiss_def Let_def)

lemma Delete_db:
  "db (snd (Delete J c key)) = db c
   \<or> db (snd (Delete J c key))
       = (db c)\<lparr>items := AList.delete (fileInfoPrefix @ key)
                           (AList.delete (fileDataPrefix @ key) (items (db c)))\<rparr>"
  using Delete_cases [of J c key] by (auto split: sum.splits)

lemma Set_db:
  "db (snd (Set J c key data mime ttl now)) = db c
   \<or> (\<exists>p b. db (snd (Set J c key data mime ttl now))
       = (db c)\<lparr>items := AList.update (fileInfoPrefix @ key) b
                           (AList.update (fileDataPrefix @ key) p (items (db c)))\<rparr>)"
  by (auto simp: Set_def Let_def db_Update_def Set_txn_Inr
      split: if_splits option.splits sum.splits prod.splits)

lemma updateFileAccess_db:
  "db (snd (updateFileAccess J key fi now c)) = db c
   \<or> (\<exists>b. db (snd (updateFileAccess J key fi now c))
       = (db c)\<lparr>items := AList.update (fileInfoPrefix @ key) b (items (db c))\<rparr>)"
  by (auto simp: updateFileAccess_def Let_def db_Update_def txn_Set_def
      split: option.splits sum.splits)

lemma Get_db:
  "db (snd (Get J c key now now')) = db c
   \<or> (\<exists>b. map_of (items (db c)) (fileInfoPrefix @ key) \<noteq> None
         \<and> db (snd (Get J c key now now'))
             = (db c)\<lparr>items := AList.update (fileInfoPrefix @ key) b (items (db c))\<rparr>)"
proof (cases "Get_view J (db c) key now")
  case (Inl err)
  then show ?thesis by (simp add: Get_def)
next
  case (Inr r)
  obtain data fi where r: "r = (data, fi)" by (cases r)
  from Inr r have "Get_view J (db c) key now = Inr (data, fi)" by simp
  then obtain val where "txn_Get (db c) (fileInfoPrefix @ key) = Inr val"
    by (auto simp: Get_view_Inr)
  then have present: "map_of (items (db c)) (fileInfoPrefix @ key) \<noteq> None"
    by (auto simp: txn_Get_def split: if_splits option.splits)
  have "snd (Get J c key now now') = snd (updateFileAccess J key fi now' (updateStatsAfterHit c))"
    by (simp add: Get_def Inr r split: prod.splits)
  with updateFileAccess_db [of J key fi now' "updateStatsAfterHit c"] present
  show ?thesis by auto
qed

lemma saveStats_db:
  "db (snd (saveStats J c)) = db c
   \<or> (\<exists>b. db (snd (saveStats J c)) = (db c)\<lparr>items := AList.update statsKey b (items (db c))\<rparr>)"
  by (auto simp: saveStats_def db_Update_def txn_Set_def split: option.splits sum.splits)

lemma paired_Set_items:
  "paired d \<Longrightarrow>
   paired (d\<lparr>items := AList.update (fileInfoPrefix @ key) b
                        (AList.update (fileDataPrefix @ key) p (items d))\<rparr>)"
  by (simp add: paired_def update_conv')

lemma paired_Delete_items:
  "paired d \<Longrightarrow>
   paired (d\<lparr>items := AList.delete (fileInfoPrefix @ key)
                        (AList.delete (fileDataPrefix @ key) (items d))\<rparr>)"
  by (simp add: paired_def delete_conv')

lemma paired_touch_items:
  "paired d \<Longrightarrow> map_of (items d) (fileInfoPrefix @ key) = Some v \<Longrightarrow>
   paired (d\<lparr>items := AList.update (fileInfoPrefix @ key) b (items d)\<rparr>)"
  by (auto simp: paired_def update_conv')

lemma paired_stats_items:
  "paired d \<Longrightarrow> paired (d\<lparr>items := AList.update statsKey b (items d)\<rparr>)"
  by (simp add: paired_def update_conv')

lemma paired_Set: "paired (db c) \<Longrightarrow> paired (db (snd (Set J c key data mime ttl now)))"
  using Set_db [of J c key data mime ttl now] by (auto intro: paired_Set_items)

lemma paired_Get: "paired (db c) \<Longrightarrow> paired (db (snd (Get J c key now now')))"
  using Get_db [of J c key now now'] by (auto intro: paired_touch_items)

lemma paired_Delete: "paired (db c) \<Longrightarrow> paired (db (snd (Delete J c key)))"
  using Delete_db [of J c key] by (auto intro: paired_Delete_items)

lemma paired_Cleanup_delete: "paired (db c) \<Longrightarrow> paired (db (Cleanup_delete J ks c))"
  by (induction ks arbitrary: c) (simp_all add: paired_Delete)

lemma paired_Cleanup: "paired (db c) \<Longrightarrow> paired (db (snd (Cleanup J c now)))"
proof -
  assume p: "paired (db c)"
  show ?thesis
  proof (cases "Cleanup_loop J (db c) now (items (db c)) ([], 0)")
    case (Inl err)
    with p show ?thesis by (simp add: Cleanup_def)
  next
    case (Inr r)
    obtain ex total where r: "r = (ex, total)" by (cases r)
    let ?c1 = "Cleanup_delete J ex c"
    let ?c2 = "?c1\<lparr>stats := (stats ?c1)\<lparr>ExpiredFiles := of_nat (length ex), LastCleanup := now\<rparr>\<rparr>"
    have "paired (db ?c2)" using p by (simp add: paired_Cleanup_delete)
    with saveStats_db [of J ?c2] have "paired (db (snd (saveStats J ?c2)))"
      by (auto intro: paired_stats_items)
    then show ?thesis by (simp add: Cleanup_def Inr r Let_def)
  qed
qed

lemma paired_apply_op: "paired (db c) \<Longrightarrow> paired (db (apply_op J c x))"
  by (cases x) (simp_all add: paired_Set paired_Get paired_Delete paired_Cleanup)

subsection \<open>The entry under the empty key\<close>

lemma bare_prefixes [simp]:
  "fileDataPrefix @ k \<noteq> fileInfoPrefix" "fileInfoPrefix @ k \<noteq> fileDataPrefix"
  "fileDataPrefix \<noteq> fileInfoPrefix @ k" "fileInfoPrefix \<noteq> fileDataPrefix @ k"
  "statsKey \<noteq> fileDataPrefix" "statsKey \<noteq> fileInfoPrefix"
  "fileDataPrefix \<noteq> statsKey" "fileInfoPrefix \<noteq> statsKey"
  by (simp_all add: fileDataPrefix_def fileInfoPrefix_def statsKey_def)

lemma Set_succeeds_if:
  assumes "int (length p) \<le> sint (MaxCacheSize (config c))"
    and "Marshal_FileInfo J
           \<lparr>Key = key, Size = of_nat (length p), MimeType = mime, CreatedAt = now,
            ExpiresAt = Add now (if ttl \<le>s 0 then DefaultTTL (config c) else ttl),
            AccessCount = 0, LastAccess = now\<rparr> = Some b"
    and "fileDataPrefix @ key \<notin> set (failing (db c))"
    and "fileInfoPrefix @ key \<notin> set (failing (db c))"
  shows "Set J c key (Inr p) mime ttl now =
           (None, updateStatsAfterSet (of_nat (length p))
                    (c\<lparr>db := (db c)\<lparr>items := AList.update (fileInfoPrefix @ key) b
                          (AList.update (fileDataPrefix @ key) p (items (db c)))\<rparr>\<rparr>))"
  using assms by (simp add: Set_def Let_def db_Update_def Set_txn_def txn_Set_def)

lemma List_loop_keys:
  assumes "\<forall>fi\<in>set files. Key fi \<noteq> []"
  shows "\<forall>fi\<in>set (fst (List_loop J d kvs files)). Key fi \<noteq> []"
  using assms
proof (induction kvs arbitrary: files)
  case Nil
  then show ?case by simp
next
  case (Cons kv kvs)
  obtain k v where kv: "kv = (k, v)" by (cases kv)
  show ?case
  proof (cases "length k > length fileInfoPrefix
                \<and> take (length fileInfoPrefix) k = fileInfoPrefix")
    case False
    then have "List_loop J d (kv # kvs) files = List_loop J d kvs files"
      by (auto simp: kv)
    with Cons show ?thesis by simp
  next
    case True
    then have nonempty: "drop (length fileInfoPrefix) k \<noteq> []" by simp
    show ?thesis
    proof (cases "item_Value d k v")
      case (Inl err)
      with True Cons.prems show ?thesis by (simp add: kv)
    next
      case (Inr val)
      show ?thesis
      proof (cases "Unmarshal_FileInfo J val")
        case None
        with True Inr Cons.prems show ?thesis by (simp add: kv)
      next
        case (Some fi0)
        let ?files = "files @ [fi0\<lparr>Key := drop (length fileInfoPrefix) k\<rparr>]"
        have "\<forall>fi\<in>set ?files. Key fi \<noteq> []"
          using Cons.prems nonempty by simp
        then have "\<forall>fi\<in>set (fst (List_loop J d kvs ?files)). Key fi \<noteq> []"
          by (rule Cons.IH)
        moreover have "List_loop J d (kv # kvs) files = List_loop J d kvs ?files"
          using True Inr Some by (simp add: kv)
        ultimately show ?thesis by simp
      qed
    qed
  qed
qed

lemma Cleanup_loop_keys:
  "Cleanup_loop J d now kvs (ex, sz) = Inr (ex', sz') \<Longrightarrow> [] \<notin> set ex \<Longrightarrow> [] \<notin> set ex'"
proof (induction kvs arbitrary: ex sz)
  case Nil
  then show ?case by simp
next
  case (Cons kv kvs)
  obtain k v where kv: "kv = (k, v)" by (cases kv)
  show ?case
  proof (cases "length k > length fileInfoPrefix
                \<and> take (length fileInfoPrefix) k = fileInfoPrefix")
    case False
    then have "Cleanup_loop J d now (kv # kvs) (ex, sz) = Cleanup_loop J d now kvs (ex, sz)"
      by (auto simp: kv)
    with Cons show ?thesis by simp
  next
    case True
    then have nonempty: "drop (length fileInfoPrefix) k \<noteq> []" by simp
    from True Cons.prems(1) obtain val fi0 where val: "item_Value d k v = Inr val"
      and fi0: "Unmarshal_FileInfo J val = Some fi0"
      by (auto simp: kv Let_def split: sum.splits option.splits)
    show ?thesis
    proof (cases "After now (ExpiresAt fi0)")
      case expired: True
      let ?ex = "ex @ [drop (length fileInfoPrefix) k]"
      have "Cleanup_loop J d now kvs (?ex, sz + Size fi0) = Inr (ex', sz')"
        using True val fi0 expired Cons.prems(1) by (simp add: kv)
      moreover have "[] \<notin> set ?ex"
        using Cons.prems(2) nonempty by auto
      ultimately show ?thesis by (rule Cons.IH)
    next
      case False
      have "Cleanup_loop J d now kvs (ex, sz) = Inr (ex', sz')"
        using True val fi0 False Cons.prems(1) by (simp add: kv)
      then show ?thesis using Cons.prems(2) by (rule Cons.IH)
    qed
  qed
qed

lemma Delete_keeps_bare:
  assumes "key \<noteq> []"
  shows "map_of (items (db (snd (Delete J c key)))) fileDataPrefix = map_of (items (db c)) fileDataPrefix"
    and "map_of (items (db (snd (Delete J c key)))) fileInfoPrefix = map_of (items (db c)) fileInfoPrefix"
  using Delete_db [of J c key] assms by (auto simp: delete_conv')

lemma Cleanup_delete_keeps_bare:
  assumes "[] \<notin> set ks"
  shows "map_of (items (db (Cleanup_delete J ks c))) fileDataPrefix = map_of (items (db c)) fileDataPrefix
       \<and> map_of (items (db (Cleanup_delete J ks c))) fileInfoPrefix = map_of (items (db c)) fileInfoPrefix"
  using assms
proof (induction ks arbitrary: c)
  case Nil
  then show ?case by simp
next
  case (Cons k ks)
  then have k: "k \<noteq> []" and ks: "[] \<notin> set ks" by auto
  from Cons.IH [OF ks, of "snd (Delete J c k)"] Delete_keeps_bare [OF k, of J c]
  show ?case by simp
qed

lemma Cleanup_keeps_bare:
  "map_of (items (db (snd (Cleanup J c now)))) fileDataPrefix = map_of (items (db c)) fileDataPrefix
   \<and> map_of (items (db (snd (Cleanup J c now)))) fileInfoPrefix = map_of (items (db c)) fileInfoPrefix"
proof (cases "Cleanup_loop J (db c) now (items (db c)) ([], 0)")
  case (Inl err)
  then show ?thesis by (simp add: Cleanup_def)
next
  case (Inr r)
  obtain ex total where r: "r = (ex, total)" by (cases r)
  let ?c1 = "Cleanup_delete J ex c"
  let ?c2 = "?c1\<lparr>stats := (stats ?c1)\<lparr>ExpiredFiles := of_nat (length ex), LastCleanup := now\<rparr>\<rparr>"
  from Inr r have "[] \<notin> set ex"
    using Cleanup_loop_keys [of J "db c" now "items (db c)" "[]" 0 ex total] by simp
  then have "map_of (items (db ?c2)) fileDataPrefix = map_of (items (db c)) fileDataPrefix
       \<and> map_of (items (db ?c2)) fileInfoPrefix = map_of (items (db c)) fileInfoPrefix"
    using Cleanup_delete_keeps_bare [of ex J c] by simp
  moreover have "map_of (items (db (snd (saveStats J ?c2)))) fileDataPrefix = map_of (items (db ?c2)) fileDataPrefix
       \<and> map_of (items (db (snd (saveStats J ?c2)))) fileInfoPrefix = map_of (items (db ?c2)) fileInfoPrefix"
    using saveStats_db [of J ?c2] by (auto simp: update_conv')
  ultimately show ?thesis by (simp add: Cleanup_def Inr r Let_def)
qed

subsection \<open>The two loops of Cleanup\<close>

lemma Cleanup_loop_readable:
  assumes "Cleanup_loop J d now kvs acc = Inr r"
    and "(key, v) \<in> set kvs"
    and "length key > length fileInfoPrefix"
    and "take (length fileInfoPrefix) key = fileInfoPrefix"
  shows "key \<notin> set (failing d) \<and> (\<exists>fi. Unmarshal_FileInfo J v = Some fi)"
  using assms
proof (induction kvs arbitrary: acc)
  case Nil
  then show ?case by simp
next
  case (Cons kv kvs)
  obtain k w where kv: "kv = (k, w)" by (cases kv)
  obtain ex sz where acc: "acc = (ex, sz)" by (cases acc)
  show ?case
  proof (cases "length k > length fileInfoPrefix
                \<and> take (length fileInfoPrefix) k = fileInfoPrefix")
    case False
    then have step: "Cleanup_loop J d now (kv # kvs) acc = Cleanup_loop J d now kvs acc"
      by (auto simp: kv acc)
    from False Cons.prems have "(key, v) \<in> set kvs" by (auto simp: kv)
    with Cons.IH [of acc] Cons.prems step show ?thesis by simp
  next
    case True
    from True Cons.prems(1) obtain val fi0 where val: "item_Value d k w = Inr val"
      and fi0: "Unmarshal_FileInfo J val = Some fi0"
      by (auto simp: kv acc Let_def split: sum.splits option.splits)
    from val have ok: "k \<notin> set (failing d)" and "val = w"
      by (auto simp: item_Value_def split: if_splits)
    with fi0 have dec: "Unmarshal_FileInfo J w = Some fi0" by simp
    obtain acc' where rest: "Cleanup_loop J d now kvs acc' = Inr r"
      using True val fi0 Cons.prems(1)
      by (cases "After now (ExpiresAt fi0)") (auto simp: kv acc)
    show ?thesis
    proof (cases "(key, v) = (k, w)")
      case True
      with ok dec show ?thesis by auto
    next
      case False
      with Cons.prems have "(key, v) \<in> set kvs" by (auto simp: kv)
      with Cons.IH [OF rest] Cons.prems show ?thesis by simp
    qed
  qed
qed

lemma Cleanup_loop_collected:
  assumes "Cleanup_loop J d now kvs (ex, sz) = Inr (ex', sz')"
    and "k \<in> set ex'"
  shows "k \<in> set ex \<or> (k \<noteq> [] \<and> (\<exists>v. (fileInfoPrefix @ k, v) \<in> set kvs))"
  using assms
proof (induction kvs arbitrary: ex sz)
  case Nil
  then show ?case by simp
next
  case (Cons kv kvs)
  obtain key w where kv: "kv = (key, w)" by (cases kv)
  show ?case
  proof (cases "length key > length fileInfoPrefix
                \<and> take (length fileInfoPrefix) key = fileInfoPrefix")
    case False
    then have "Cleanup_loop J d now (kv # kvs) (ex, sz) = Cleanup_loop J d now kvs (ex, sz)"
      by (auto simp: kv)
    with Cons.IH [of ex sz] Cons.prems show ?thesis by auto
  next
    case True
    then have nonempty: "drop (length fileInfoPrefix) key \<noteq> []" by simp
    from True have key: "fileInfoPrefix @ drop (length fileInfoPrefix) key = key"
      by (metis append_take_drop_id)
    from True Cons.prems(1) obtain val fi0 where val: "item_Value d key w = Inr val"
      and fi0: "Unmarshal_FileInfo J val = Some fi0"
      by (auto simp: kv Let_def split: sum.splits option.splits)
    show ?thesis
    proof (cases "After now (ExpiresAt fi0)")
      case expired: True
      let ?ex = "ex @ [drop (length fileInfoPrefix) key]"
      have "Cleanup_loop J d now kvs (?ex, sz + Size fi0) = Inr (ex', sz')"
        using True val fi0 expired Cons.prems(1) by (simp add: kv)
      from Cons.IH [OF this Cons.prems(2)]
      show ?thesis
        using nonempty key by (auto simp: kv)
    next
      case False
      have "Cleanup_loop J d now kvs (ex, sz) = Inr (ex', sz')"
        using True val fi0 False Cons.prems(1) by (simp add: kv)
      from Cons.IH [OF this Cons.prems(2)]
      show ?thesis by auto
    qed
  qed
qed

lemma failing_Delete [simp]: "failing (db (snd (Delete J c key))) = failing (db c)"
  using Delete_db [of J c key] by auto

lemma Delete_readable:
  assumes info: "fileInfoPrefix @ key \<notin> set (failing (db c))"
    and dec: "\<forall>v. map_of (items (db c)) (fileInfoPrefix @ key) = Some v
                \<longrightarrow> (\<exists>fi. Unmarshal_FileInfo J v = Some fi)"
  shows "if fileDataPrefix @ key \<in> set (failing (db c))
         then Delete J c key = (Some (Wrapf ''failed to delete file'' StoreFailure), c)
         else fst (Delete J c key) = None
              \<and> items (db (snd (Delete J c key)))
                  = AList.delete (fileInfoPrefix @ key)
                      (AList.delete (fileDataPrefix @ key) (items (db c)))"
proof -
  have view: "Delete_view J (db c) key = Inl ErrKeyNotFound
              \<or> (\<exists>fi. Delete_view J (db c) key = Inr fi)"
    using info dec by (auto simp: Delete_view_def txn_Get_def split: option.splits)
  show ?thesis
  proof (cases "fileDataPrefix @ key \<in> set (failing (db c))")
    case True
    then have "Delete_txn key (db c) = Inl StoreFailure"
      by (simp add: Delete_txn_def txn_Delete_def)
    then have "Delete_commit c key fio = (Some (Wrapf ''failed to delete file'' StoreFailure), c)"
      for fio
      by (simp add: Delete_commit_def db_Update_def)
    with view True show ?thesis by (auto simp: Delete_def)
  next
    case False
    with info have "Delete_txn key (db c)
        = Inr ((db c)\<lparr>items := AList.delete (fileInfoPrefix @ key)
                          (AList.delete (fileDataPrefix @ key) (items (db c)))\<rparr>)"
      by (simp add: Delete_txn_Inr)
    then have "fst (Delete_commit c key fio) = None
        \<and> items (db (snd (Delete_commit c key fio)))
            = AList.delete (fileInfoPrefix @ key)
                (AList.delete (fileDataPrefix @ key) (items (db c)))" for fio
      by (simp add: Delete_commit_def db_Update_def split: option.splits)
    with view False show ?thesis by (auto simp: Delete_def)
  qed
qed

lemma Delete_shrinks:
  "map_of (items (db (snd (Delete J c key)))) x = Some v \<Longrightarrow> map_of (items (db c)) x = Some v"
  using Delete_db [of J c key] by (auto simp: delete_conv' split: if_splits)

lemma Delete_failing:
  "fileDataPrefix @ key \<in> set (failing (db c)) \<Longrightarrow> snd (Delete J c key) = c"
  using Delete_cases [of J c key] by auto

lemma Delete_other:
  "x \<noteq> fileDataPrefix @ key \<Longrightarrow> x \<noteq> fileInfoPrefix @ key \<Longrightarrow>
   map_of (items (db (snd (Delete J c key)))) x = map_of (items (db c)) x"
  using Delete_db [of J c key] by (auto simp: delete_conv')

lemma failing_Cleanup_delete [simp]:
  "failing (db (Cleanup_delete J ks c)) = failing (db c)"
  by (induction ks arbitrary: c) simp_all

lemma Cleanup_delete_shrinks:
  "map_of (items (db (Cleanup_delete J ks c))) x = Some v \<Longrightarrow> map_of (items (db c)) x = Some v"
proof (induction ks arbitrary: c)
  case Nil
  then show ?case by simp
next
  case (Cons k ks)
  then have "map_of (items (db (snd (Delete J c k)))) x = Some v" by simp
  then show ?case by (rule Delete_shrinks)
qed

lemma Cleanup_delete_kept:
  assumes "\<forall>k\<in>set ks. fileDataPrefix @ k \<in> set (failing (db c))
                        \<or> (x \<noteq> fileDataPrefix @ k \<and> x \<noteq> fileInfoPrefix @ k)"
  shows "map_of (items (db (Cleanup_delete J ks c))) x = map_of (items (db c)) x"
  using assms
proof (induction ks arbitrary: c)
  case Nil
  then show ?case by simp
next
  case (Cons k ks)
  let ?c1 = "snd (Delete J c k)"
  from Cons.prems have rest: "\<forall>k\<in>set ks. fileDataPrefix @ k \<in> set (failing (db ?c1))
                        \<or> (x \<noteq> fileDataPrefix @ k \<and> x \<noteq> fileInfoPrefix @ k)"
    by simp
  have "map_of (items (db ?c1)) x = map_of (items (db c)) x"
  proof (cases "fileDataPrefix @ k \<in> set (failing (db c))")
    case True
    then show ?thesis by (simp add: Delete_failing)
  next
    case False
    with Cons.prems have "x \<noteq> fileDataPrefix @ k" "x \<noteq> fileInfoPrefix @ k" by simp_all
    then show ?thesis by (rule Delete_other)
  qed
  with Cons.IH [OF rest] show ?case by simp
qed

lemma Cleanup_delete_gone:
  assumes "k \<in> set ks"
    and "fileDataPrefix @ k \<notin> set (failing (db c))"
    and "\<forall>k\<in>set ks. fileInfoPrefix @ k \<notin> set (failing (db c))
                     \<and> (\<forall>v. map_of (items (db c)) (fileInfoPrefix @ k) = Some v
                            \<longrightarrow> (\<exists>fi. Unmarshal_FileInfo J v = Some fi))"
  shows "map_of (items (db (Cleanup_delete J ks c))) (fileDataPrefix @ k) = None
       \<and> map_of (items (db (Cleanup_delete J ks c))) (fileInfoPrefix @ k) = None"
  using assms
proof (induction ks arbitrary: c)
  case Nil
  then show ?case by simp
next
  case (Cons k0 ks)
  let ?c1 = "snd (Delete J c k0)"
  have readable1: "\<forall>k\<in>set ks. fileInfoPrefix @ k \<notin> set (failing (db ?c1))
                     \<and> (\<forall>v. map_of (items (db ?c1)) (fileInfoPrefix @ k) = Some v
                            \<longrightarrow> (\<exists>fi. Unmarshal_FileInfo J v = Some fi))"
  proof
    fix k' assume k': "k' \<in> set ks"
    with Cons.prems(3) have a: "fileInfoPrefix @ k' \<notin> set (failing (db c))"
      and b: "\<forall>v. map_of (items (db c)) (fileInfoPrefix @ k') = Some v
                            \<longrightarrow> (\<exists>fi. Unmarshal_FileInfo J v = Some fi)"
      by simp_all
    from b have "\<forall>v. map_of (items (db ?c1)) (fileInfoPrefix @ k') = Some v
                            \<longrightarrow> (\<exists>fi. Unmarshal_FileInfo J v = Some fi)"
      using Delete_shrinks [of J c k0 "fileInfoPrefix @ k'"] by blast
    with a show "fileInfoPrefix @ k' \<notin> set (failing (db ?c1))
                     \<and> (\<forall>v. map_of (items (db ?c1)) (fileInfoPrefix @ k') = Some v
                            \<longrightarrow> (\<exists>fi. Unmarshal_FileInfo J v = Some fi))"
      by simp
  qed
  show ?case
  proof (cases "k \<in> set ks")
    case True
    from Cons.prems(2) have "fileDataPrefix @ k \<notin> set (failing (db ?c1))" by simp
    from Cons.IH [OF True this readable1] show ?thesis by simp
  next
    case False
    with Cons.prems(1) have k0: "k0 = k" by simp
    from Cons.prems(3) have info: "fileInfoPrefix @ k \<notin> set (failing (db c))"
      and dec: "\<forall>v. map_of (items (db c)) (fileInfoPrefix @ k) = Some v
                            \<longrightarrow> (\<exists>fi. Unmarshal_FileInfo J v = Some fi)"
      by (simp_all add: k0)
    from Delete_readable [OF info dec] Cons.prems(2)
    have "items (db (snd (Delete J c k)))
            = AList.delete (fileInfoPrefix @ k) (AList.delete (fileDataPrefix @ k) (items (db c)))"
      by simp
    then have none1: "map_of (items (db ?c1)) (fileDataPrefix @ k) = None"
      "map_of (items (db ?c1)) (fileInfoPrefix @ k) = None"
      by (simp_all add: k0 delete_conv')
    have "map_of (items (db (Cleanup_delete J ks ?c1))) x = None"
      if "map_of (items (db ?c1)) x = None" for x
      using that Cleanup_delete_shrinks [of J ks ?c1 x]
      by (cases "map_of (items (db (Cleanup_delete J ks ?c1))) x") auto
    with none1 show ?thesis by simp
  qed
qed

lemma saveStats_other:
  "x \<noteq> statsKey \<Longrightarrow> map_of (items (db (snd (saveStats J c)))) x = map_of (items (db c)) x"
  using saveStats_db [of J c] by (auto simp: update_conv')

lemma Cleanup_scan_readable:
  assumes scan: "Cleanup_loop J (db c) now (items (db c)) ([], 0) = Inr (ex, sz)"
    and key: "key \<in> set ex"
  shows "fileInfoPrefix @ key \<notin> set (failing (db c))
         \<and> (\<forall>v. map_of (items (db c)) (fileInfoPrefix @ key) = Some v
                \<longrightarrow> (\<exists>fi. Unmarshal_FileInfo J v = Some fi))"
proof -
  from Cleanup_loop_collected [OF scan key] obtain v0
    where nonempty: "key \<noteq> []" and v0: "(fileInfoPrefix @ key, v0) \<in> set (items (db c))"
    by auto
  from nonempty have long: "length (fileInfoPrefix @ key) > length fileInfoPrefix"
    and pre: "take (length fileInfoPrefix) (fileInfoPrefix @ key) = fileInfoPrefix"
    by simp_all
  from Cleanup_loop_readable [OF scan v0 long pre]
  have "fileInfoPrefix @ key \<notin> set (failing (db c))" by simp
  moreover have "\<exists>fi. Unmarshal_FileInfo J v = Some fi"
    if "map_of (items (db c)) (fileInfoPrefix @ key) = Some v" for v
  proof -
    from that have "(fileInfoPrefix @ key, v) \<in> set (items (db c))"
      by (rule map_of_SomeD)
    from Cleanup_loop_readable [OF scan this long pre] show ?thesis by simp
  qed
  ultimately show ?thesis by blast
qed

subsection \<open>Counting stored entries\<close>










section \<open>The claims\<close>

subsection \<open>C1: a stored entry is fetched back\<close>




subsection \<open>C2: Get on an absent key and on an expired entry\<close>

text \<open>
  Claim C2 says that \<open>Get\<close> fails in the same way for an absent key and for an expired
  entry and records a miss in both cases. On the cache that holds the entry \<open>a\<close>,
  expired at time 100, a \<open>Get\<close> of \<open>a\<close> at time 200 returns the error
  \<^verbatim>\<open>file expired\<close> and leaves the cache, its statistics included, as it was, while
  a \<open>Get\<close> of the absent key \<open>b\<close> returns \<^verbatim>\<open>file not found\<close> and records a miss.
\<close>

theorem Get_absent_and_expired_counterexample:
  "Get netstring_json cache_a ''a'' 200 201 = (Inl (Errorf ''file expired''), cache_a)
   \<and> Get netstring_json cache_a ''b'' 200 201
       = (Inl (Errorf ''file not found''),
          cache_a\<lparr>stats := (stats cache_a)\<lparr>HitRate := 0, MissRate := 1\<rparr>\<rparr>)
   \<and> fst (Get netstring_json cache_a ''a'' 200 201) \<noteq> fst (Get netstring_json cache_a ''b'' 200 201)
   \<and> MissRate (stats (snd (Get netstring_json cache_a ''a'' 200 201))) = 0
   \<and> MissRate (stats (snd (Get netstring_json cache_a ''b'' 200 201))) = 1"
proof -
  have a: "Get netstring_json cache_a ''a'' 200 201 = (Inl (Errorf ''file expired''), cache_a)"
    by code_simp
  have b: "Get netstring_json cache_a ''b'' 200 201
       = (Inl (Errorf ''file not found''),
          cache_a\<lparr>stats := (stats cache_a)\<lparr>HitRate := 0, MissRate := 1\<rparr>\<rparr>)"
    by code_simp
  have m: "MissRate (stats cache_a) = 0"
    by code_simp
  from a b m show ?thesis by simp
qed

text \<open>
  Claim C2, as the code has it. \<open>Get\<close> fails for a key without a metadata record and
  for a key whose entry is past its expiry time, with two different errors:
  \<^verbatim>\<open>file not found\<close> for the absent key, together with a recorded miss, and
  \<^verbatim>\<open>file expired\<close> for the expired entry.
\<close>

theorem Get_absent_and_expired:
  assumes "txn_Get (db c) (fileInfoPrefix @ absent) = Inl ErrKeyNotFound"
    and "txn_Get (db c) (fileInfoPrefix @ expired) = Inr val"
    and "Unmarshal_FileInfo J val = Some fi"
    and "After now (ExpiresAt fi)"
  shows "Get J c absent now now' = (Inl (Errorf ''file not found''), updateStatsAfterMiss c)
         \<and> fst (Get J c expired now now') = Inl (Errorf ''file expired'')
         \<and> fst (Get J c expired now now') \<noteq> fst (Get J c absent now now')"
  using assms by (simp add: Get_def Get_view_def)

theorem Get_absent_and_expired_witness:
  "txn_Get (db cache_a) (fileInfoPrefix @ ''b'') = Inl ErrKeyNotFound
   \<and> txn_Get (db cache_a) (fileInfoPrefix @ ''a'') = Inr ''1:a,1:5,10:text/plain,1:0,3:100,1:0,1:0,''
   \<and> Unmarshal_FileInfo netstring_json ''1:a,1:5,10:text/plain,1:0,3:100,1:0,1:0,''
       = Some \<lparr>Key = ''a'', Size = 5, MimeType = ''text/plain'', CreatedAt = 0,
                ExpiresAt = 100, AccessCount = 0, LastAccess = 0\<rparr>
   \<and> After 101 (ExpiresAt \<lparr>Key = ''a'', Size = 5, MimeType = ''text/plain'', CreatedAt = 0,
                ExpiresAt = 100, AccessCount = 0, LastAccess = 0\<rparr>)
   \<and> Get netstring_json cache_a ''b'' 101 102
       = (Inl (Errorf ''file not found''), updateStatsAfterMiss cache_a)
   \<and> fst (Get netstring_json cache_a ''a'' 101 102) = Inl (Errorf ''file expired'')
   \<and> fst (Get netstring_json cache_a ''a'' 101 102) \<noteq> fst (Get netstring_json cache_a ''b'' 101 102)"
proof -
  have n: "txn_Get (db cache_a) (fileInfoPrefix @ ''b'') = Inl ErrKeyNotFound"
    by code_simp
  have a: "txn_Get (db cache_a) (fileInfoPrefix @ ''a'')
             = Inr ''1:a,1:5,10:text/plain,1:0,3:100,1:0,1:0,''"
    by code_simp
  have b: "Unmarshal_FileInfo netstring_json ''1:a,1:5,10:text/plain,1:0,3:100,1:0,1:0,''
       = Some \<lparr>Key = ''a'', Size = 5, MimeType = ''text/plain'', CreatedAt = 0,
                ExpiresAt = 100, AccessCount = 0, LastAccess = 0\<rparr>"
    by code_simp
  have e: "After 101 (ExpiresAt \<lparr>Key = ''a'', Size = 5, MimeType = ''text/plain'', CreatedAt = 0,
                ExpiresAt = 100, AccessCount = 0, LastAccess = 0\<rparr>)"
    by (simp add: After_def)
  from Get_absent_and_expired [OF n a b e, of 102] n a b e show ?thesis by simp
qed

subsection \<open>C3: the errors of Cleanup\<close>

text \<open>
  Claim C3 says that \<open>Cleanup\<close> never returns an error, also when a metadata record
  cannot be decoded. On the cache with the undecodable record \<^verbatim>\<open>info:bad\<close> the
  sweep at time 200 returns the error of the decoder and changes nothing: the entry
  \<open>a\<close>, expired at time 100, is still there.
\<close>

theorem Cleanup_errors_counterexample:
  "Cleanup netstring_json cache_corrupt 200 = (Some JSONFailure, cache_corrupt)
   \<and> fst (Get netstring_json cache_corrupt ''a'' 200 201) = Inl (Errorf ''file expired'')
   \<and> Exists (snd (Cleanup netstring_json cache_corrupt 200)) ''a'' = (True, None)"
proof -
  have a: "Cleanup netstring_json cache_corrupt 200 = (Some JSONFailure, cache_corrupt)"
    by code_simp
  have b: "fst (Get netstring_json cache_corrupt ''a'' 200 201) = Inl (Errorf ''file expired'')"
    by code_simp
  have c: "Exists cache_corrupt ''a'' = (True, None)"
    by code_simp
  from a b c show ?thesis by simp
qed

text \<open>
  Claim C3, as the code has it. \<open>Cleanup\<close> returns an error when its first loop, the scan
  of the metadata records, meets a record that cannot be read or decoded; the error is
  that of the scan and the cache is unchanged. Once the scan has passed, \<open>Cleanup\<close>
  returns no error whatever the deletes do: an expired key whose \<open>Delete\<close> fails (the
  store fails on its payload key) is skipped, its two records staying as they were, and
  every other expired key has lost both of its records afterwards.
\<close>

theorem Cleanup_errors:
  "case Cleanup_loop J (db c) now (items (db c)) ([], 0) of
     Inl err \<Rightarrow> Cleanup J c now = (Some err, c)
   | Inr (expiredFiles, totalSize) \<Rightarrow>
       fst (Cleanup J c now) = None
       \<and> (\<forall>key\<in>set expiredFiles.
            if fileDataPrefix @ key \<in> set (failing (db c))
            then Delete J c key = (Some (Wrapf ''failed to delete file'' StoreFailure), c)
                 \<and> map_of (items (db (snd (Cleanup J c now)))) (fileDataPrefix @ key)
                     = map_of (items (db c)) (fileDataPrefix @ key)
                 \<and> map_of (items (db (snd (Cleanup J c now)))) (fileInfoPrefix @ key)
                     = map_of (items (db c)) (fileInfoPrefix @ key)
            else map_of (items (db (snd (Cleanup J c now)))) (fileDataPrefix @ key) = None
                 \<and> map_of (items (db (snd (Cleanup J c now)))) (fileInfoPrefix @ key) = None)"
proof (cases "Cleanup_loop J (db c) now (items (db c)) ([], 0)")
  case (Inl err)
  then show ?thesis by (simp add: Cleanup_def)
next
  case (Inr r)
  obtain ex sz where r: "r = (ex, sz)" by (cases r)
  with Inr have scan: "Cleanup_loop J (db c) now (items (db c)) ([], 0) = Inr (ex, sz)" by simp
  let ?c1 = "Cleanup_delete J ex c"
  let ?c2 = "?c1\<lparr>stats := (stats ?c1)\<lparr>ExpiredFiles := of_nat (length ex), LastCleanup := now\<rparr>\<rparr>"
  have result: "Cleanup J c now = (None, snd (saveStats J ?c2))"
    by (simp add: Cleanup_def scan Let_def)
  have after: "map_of (items (db (snd (Cleanup J c now)))) (fileDataPrefix @ key)
                 = map_of (items (db ?c1)) (fileDataPrefix @ key)
             \<and> map_of (items (db (snd (Cleanup J c now)))) (fileInfoPrefix @ key)
                 = map_of (items (db ?c1)) (fileInfoPrefix @ key)" for key
    by (simp add: result saveStats_other)
  note readable = Cleanup_scan_readable [OF scan]
  have each: "if fileDataPrefix @ key \<in> set (failing (db c))
            then Delete J c key = (Some (Wrapf ''failed to delete file'' StoreFailure), c)
                 \<and> map_of (items (db (snd (Cleanup J c now)))) (fileDataPrefix @ key)
                     = map_of (items (db c)) (fileDataPrefix @ key)
                 \<and> map_of (items (db (snd (Cleanup J c now)))) (fileInfoPrefix @ key)
                     = map_of (items (db c)) (fileInfoPrefix @ key)
            else map_of (items (db (snd (Cleanup J c now)))) (fileDataPrefix @ key) = None
                 \<and> map_of (items (db (snd (Cleanup J c now)))) (fileInfoPrefix @ key) = None"
    if key: "key \<in> set ex" for key
  proof (cases "fileDataPrefix @ key \<in> set (failing (db c))")
    case True
    from readable [OF key] have info: "fileInfoPrefix @ key \<notin> set (failing (db c))"
      and dec: "\<forall>v. map_of (items (db c)) (fileInfoPrefix @ key) = Some v
                \<longrightarrow> (\<exists>fi. Unmarshal_FileInfo J v = Some fi)"
      by simp_all
    from Delete_readable [OF info dec] True
    have fails: "Delete J c key = (Some (Wrapf ''failed to delete file'' StoreFailure), c)"
      by simp
    have others: "\<forall>k\<in>set ex. fileDataPrefix @ k \<in> set (failing (db c))
                    \<or> (x \<noteq> fileDataPrefix @ k \<and> x \<noteq> fileInfoPrefix @ k)"
      if "x = fileDataPrefix @ key \<or> x = fileInfoPrefix @ key" for x
      using that True by auto
    have "map_of (items (db ?c1)) (fileDataPrefix @ key) = map_of (items (db c)) (fileDataPrefix @ key)"
      by (rule Cleanup_delete_kept) (rule others, simp)
    moreover
    have "map_of (items (db ?c1)) (fileInfoPrefix @ key) = map_of (items (db c)) (fileInfoPrefix @ key)"
      by (rule Cleanup_delete_kept) (rule others, simp)
    ultimately show ?thesis using True fails after [of key] by simp
  next
    case False
    have "\<forall>k\<in>set ex. fileInfoPrefix @ k \<notin> set (failing (db c))
                     \<and> (\<forall>v. map_of (items (db c)) (fileInfoPrefix @ k) = Some v
                            \<longrightarrow> (\<exists>fi. Unmarshal_FileInfo J v = Some fi))"
      using readable by blast
    from Cleanup_delete_gone [OF key False this] False after [of key]
    show ?thesis by simp
  qed
  have ok: "fst (Cleanup J c now) = None"
    by (simp add: result)
  from each have all: "\<forall>key\<in>set ex.
            if fileDataPrefix @ key \<in> set (failing (db c))
            then Delete J c key = (Some (Wrapf ''failed to delete file'' StoreFailure), c)
                 \<and> map_of (items (db (snd (Cleanup J c now)))) (fileDataPrefix @ key)
                     = map_of (items (db c)) (fileDataPrefix @ key)
                 \<and> map_of (items (db (snd (Cleanup J c now)))) (fileInfoPrefix @ key)
                     = map_of (items (db c)) (fileInfoPrefix @ key)
            else map_of (items (db (snd (Cleanup J c now)))) (fileDataPrefix @ key) = None
                 \<and> map_of (items (db (snd (Cleanup J c now)))) (fileInfoPrefix @ key) = None"
    by blast
  show ?thesis
    unfolding scan sum.case prod.case by (rule conjI [OF ok all])
qed

theorem Cleanup_errors_witness:
  "Cleanup_loop netstring_json (db cache_faulty) 200 (items (db cache_faulty)) ([], 0)
     = Inr ([''a'', ''b''], 6)
   \<and> fst (Cleanup netstring_json cache_faulty 200) = None
   \<and> Delete netstring_json cache_faulty ''a''
       = (Some (Wrapf ''failed to delete file'' StoreFailure), cache_faulty)
   \<and> map_of (items (db (snd (Cleanup netstring_json cache_faulty 200)))) (fileDataPrefix @ ''a'')
       = map_of (items (db cache_faulty)) (fileDataPrefix @ ''a'')
   \<and> map_of (items (db (snd (Cleanup netstring_json cache_faulty 200)))) (fileInfoPrefix @ ''a'')
       = map_of (items (db cache_faulty)) (fileInfoPrefix @ ''a'')
   \<and> map_of (items (db (snd (Cleanup netstring_json cache_faulty 200)))) (fileDataPrefix @ ''b'')
       = None
   \<and> map_of (items (db (snd (Cleanup netstring_json cache_faulty 200)))) (fileInfoPrefix @ ''b'')
       = None"
proof -
  have scan: "Cleanup_loop netstring_json (db cache_faulty) 200 (items (db cache_faulty)) ([], 0)
     = Inr ([''a'', ''b''], 6)"
    by code_simp
  have fa: "fileDataPrefix @ ''a'' \<in> set (failing (db cache_faulty))"
    by code_simp
  have fb: "fileDataPrefix @ ''b'' \<notin> set (failing (db cache_faulty))"
    by code_simp
  note inst = Cleanup_errors [of netstring_json cache_faulty 200, unfolded scan sum.case prod.case]
  from inst have ok: "fst (Cleanup netstring_json cache_faulty 200) = None"
    by (rule conjunct1)
  from inst [THEN conjunct2, rule_format, of "''a''"] fa
  have a: "Delete netstring_json cache_faulty ''a''
       = (Some (Wrapf ''failed to delete file'' StoreFailure), cache_faulty)
   \<and> map_of (items (db (snd (Cleanup netstring_json cache_faulty 200)))) (fileDataPrefix @ ''a'')
       = map_of (items (db cache_faulty)) (fileDataPrefix @ ''a'')
   \<and> map_of (items (db (snd (Cleanup netstring_json cache_faulty 200)))) (fileInfoPrefix @ ''a'')
       = map_of (items (db cache_faulty)) (fileInfoPrefix @ ''a'')"
    by simp
  from inst [THEN conjunct2, rule_format, of "''b''"] fb
  have b: "map_of (items (db (snd (Cleanup netstring_json cache_faulty 200)))) (fileDataPrefix @ ''b'')
       = None
   \<and> map_of (items (db (snd (Cleanup netstring_json cache_faulty 200)))) (fileInfoPrefix @ ''b'')
       = None"
    by simp
  from scan ok a b show ?thesis by blast
qed

subsection \<open>C4: payload and metadata records go together\<close>

text \<open>
  Claim C4. A payload record exists for a key if and only if a metadata record exists
  for it, after any sequence of \<open>Set\<close>, \<open>Get\<close>, \<open>Delete\<close> and \<open>Cleanup\<close> calls made on a
  store where this holds (the empty store of a new cache is one): \<open>Set\<close> writes the two
  records in one transaction, \<open>Delete\<close> removes them in one transaction, \<open>Get\<close> only
  rewrites a metadata record it has read, and \<open>Cleanup\<close> deletes through \<open>Delete\<close>.
\<close>

theorem payload_iff_metadata:
  assumes "paired (db c)"
  shows "paired (db (run J c ops))"
  using assms unfolding run_def
  by (induction ops arbitrary: c) (simp_all add: paired_apply_op)

theorem payload_iff_metadata_witness:
  "paired (db (new_cache test_config))
   \<and> paired (db (run netstring_json (new_cache test_config)
        [OpSet ''a'' (Inr ''Hello'') ''text/plain'' 100 0,
         OpGet ''a'' 50 51,
         OpSet ''b'' (Inr ''x'') ''text/plain'' 10 60,
         OpDelete ''a'',
         OpCleanup 200]))"
proof -
  have h: "paired (db (new_cache test_config))"
    by (simp add: paired_def new_cache_def)
  from payload_iff_metadata [OF h] h show ?thesis by blast
qed

subsection \<open>C5: a payload over the size limit\<close>

text \<open>
  Claim C5. A payload longer than the configured \<open>MaxCacheSize\<close> makes \<open>Set\<close> fail with
  the size error, and the cache it returns is the cache it was given: the store holds
  no new payload or metadata record and the statistics, \<open>TotalFiles\<close> and \<open>TotalSize\<close>
  among them, are the old ones.
\<close>

theorem Set_size_exceeded:
  assumes "sint (MaxCacheSize (config c)) < int (length p)"
  shows "Set J c key (Inr p) mime ttl now =
           (Some (FileSizeExceeds (length p) (MaxCacheSize (config c))), c)"
  using assms by (simp add: Set_def Let_def)

theorem Set_size_exceeded_witness:
  "sint (MaxCacheSize (config (new_cache (test_config\<lparr>MaxCacheSize := 4\<rparr>)))) < int (length ''Hello'')
   \<and> Set netstring_json (new_cache (test_config\<lparr>MaxCacheSize := 4\<rparr>)) ''big'' (Inr ''Hello'')
         ''text/plain'' 3600 0
       = (Some (FileSizeExceeds 5 4), new_cache (test_config\<lparr>MaxCacheSize := 4\<rparr>))"
  using Set_size_exceeded [of "new_cache (test_config\<lparr>MaxCacheSize := 4\<rparr>)" "''Hello''"
      netstring_json "''big''" "''text/plain''" 3600 0]
  by (simp add: new_cache_def test_config_def)

subsection \<open>C6: the running average of hits and misses\<close>

text \<open>
  Claim C6. Recording a hit or a miss changes the pair of rates as the recurrence of
  the specification says: the pair after \<open>updateStatsAfterHit\<close> is \<open>spec_RecordHit\<close> of
  the pair before, and the pair after \<open>updateStatsAfterMiss\<close> is \<open>spec_RecordMiss\<close> of
  it (over the reals, without rounding).
\<close>

theorem hit_miss_recurrence:
  "(HitRate (stats (updateStatsAfterHit c)), MissRate (stats (updateStatsAfterHit c)))
     = spec_RecordHit (HitRate (stats c), MissRate (stats c))
   \<and> (HitRate (stats (updateStatsAfterMiss c)), MissRate (stats (updateStatsAfterMiss c)))
     = spec_RecordMiss (HitRate (stats c), MissRate (stats c))"
  by (simp add: updateStatsAfterHit_def updateStatsAfterMiss_def spec_RecordHit_def
      spec_RecordMiss_def Let_def)

subsection \<open>C7: TotalFiles under Set and Delete\<close>




subsection \<open>C8: the entry under the empty key\<close>

text \<open>
  Claim C8. \<open>Set\<close> takes the empty string as a key like any other: when the payload
  fits, the record can be encoded and the store does not fail, it returns no error and
  adds one to \<open>TotalFiles\<close> and the length to \<open>TotalSize\<close>; the two records are stored
  under the bare prefixes. \<open>List\<close> and \<open>Cleanup\<close> look only at storage keys longer than
  the metadata prefix, so no record that \<open>List\<close> returns has the empty key, and a
  \<open>Cleanup\<close> at any time, however late, leaves both records in the store.
\<close>

theorem empty_key_entry:
  assumes size: "int (length p) \<le> sint (MaxCacheSize (config c))"
    and enc: "Marshal_FileInfo J
           \<lparr>Key = [], Size = of_nat (length p), MimeType = mime, CreatedAt = now,
            ExpiresAt = Add now (if ttl \<le>s 0 then DefaultTTL (config c) else ttl),
            AccessCount = 0, LastAccess = now\<rparr> = Some b"
    and store: "fileDataPrefix \<notin> set (failing (db c))" "fileInfoPrefix \<notin> set (failing (db c))"
  shows "\<exists>c1. Set J c [] (Inr p) mime ttl now = (None, c1)
           \<and> TotalFiles (stats c1) = TotalFiles (stats c) + 1
           \<and> TotalSize (stats c1) = TotalSize (stats c) + of_nat (length p)
           \<and> map_of (items (db c1)) fileDataPrefix = Some p
           \<and> map_of (items (db c1)) fileInfoPrefix = Some b
           \<and> (\<forall>fi\<in>set (fst (List J c1)). Key fi \<noteq> [])
           \<and> (\<forall>t. map_of (items (db (snd (Cleanup J c1 t)))) fileDataPrefix = Some p
                 \<and> map_of (items (db (snd (Cleanup J c1 t)))) fileInfoPrefix = Some b)"
proof -
  let ?c1 = "updateStatsAfterSet (of_nat (length p))
               (c\<lparr>db := (db c)\<lparr>items := AList.update fileInfoPrefix b
                     (AList.update fileDataPrefix p (items (db c)))\<rparr>\<rparr>)"
  have set: "Set J c [] (Inr p) mime ttl now = (None, ?c1)"
    using Set_succeeds_if [of p c J "[]" mime now ttl b] size enc store by simp
  have files: "TotalFiles (stats ?c1) = TotalFiles (stats c) + 1"
    and bytes: "TotalSize (stats ?c1) = TotalSize (stats c) + of_nat (length p)"
    by (simp_all add: updateStatsAfterSet_def)
  have data: "map_of (items (db ?c1)) fileDataPrefix = Some p"
    and info: "map_of (items (db ?c1)) fileInfoPrefix = Some b"
    by (simp_all add: update_conv')
  have list: "\<forall>fi\<in>set (fst (List J ?c1)). Key fi \<noteq> []"
    unfolding List_def by (rule List_loop_keys) simp
  have sweep: "\<forall>t. map_of (items (db (snd (Cleanup J ?c1 t)))) fileDataPrefix = Some p
                 \<and> map_of (items (db (snd (Cleanup J ?c1 t)))) fileInfoPrefix = Some b"
    using Cleanup_keeps_bare [of J ?c1] data info by simp
  from set files bytes data info list sweep show ?thesis by blast
qed

theorem empty_key_entry_witness:
  "int (length ''Hello'') \<le> sint (MaxCacheSize (config (new_cache test_config)))
   \<and> Marshal_FileInfo netstring_json
         \<lparr>Key = [], Size = of_nat (length ''Hello''), MimeType = ''text/plain'', CreatedAt = 0,
          ExpiresAt = Add 0 (if (100 :: Duration) \<le>s 0 then DefaultTTL (config (new_cache test_config)) else 100),
          AccessCount = 0, LastAccess = 0\<rparr>
       = Some ''0:,1:5,10:text/plain,1:0,3:100,1:0,1:0,''
   \<and> fileDataPrefix \<notin> set (failing (db (new_cache test_config)))
   \<and> fileInfoPrefix \<notin> set (failing (db (new_cache test_config)))
   \<and> (\<exists>c1. Set netstring_json (new_cache test_config) [] (Inr ''Hello'') ''text/plain'' 100 0
               = (None, c1)
         \<and> TotalFiles (stats c1) = TotalFiles (stats (new_cache test_config)) + 1
         \<and> TotalSize (stats c1)
             = TotalSize (stats (new_cache test_config)) + of_nat (length ''Hello'')
         \<and> map_of (items (db c1)) fileDataPrefix = Some ''Hello''
         \<and> map_of (items (db c1)) fileInfoPrefix
             = Some ''0:,1:5,10:text/plain,1:0,3:100,1:0,1:0,''
         \<and> (\<forall>fi\<in>set (fst (List netstring_json c1)). Key fi \<noteq> [])
         \<and> (\<forall>t. map_of (items (db (snd (Cleanup netstring_json c1 t)))) fileDataPrefix
                   = Some ''Hello''
               \<and> map_of (items (db (snd (Cleanup netstring_json c1 t)))) fileInfoPrefix
                   = Some ''0:,1:5,10:text/plain,1:0,3:100,1:0,1:0,''))"
proof -
  have size: "int (length ''Hello'') \<le> sint (MaxCacheSize (config (new_cache test_config)))"
    by code_simp
  have enc: "Marshal_FileInfo netstring_json
         \<lparr>Key = [], Size = of_nat (length ''Hello''), MimeType = ''text/plain'', CreatedAt = 0,
          ExpiresAt = Add 0 (if (100 :: Duration) \<le>s 0 then DefaultTTL (config (new_cache test_config)) else 100),
          AccessCount = 0, LastAccess = 0\<rparr>
       = Some ''0:,1:5,10:text/plain,1:0,3:100,1:0,1:0,''"
    by code_simp
  have store: "fileDataPrefix \<notin> set (failing (db (new_cache test_config)))"
    "fileInfoPrefix \<notin> set (failing (db (new_cache test_config)))"
    by (simp_all add: new_cache_def)
  from empty_key_entry [OF size enc store] size enc store show ?thesis by blast
qed

subsection \<open>C9: Exists and GetInfo on an expired entry\<close>

text \<open>
  Claim C9. \<open>Exists\<close> and \<open>GetInfo\<close> do not look at \<open>ExpiresAt\<close>: for a key whose stored
  metadata record is past its expiry time, \<open>Exists\<close> answers true, \<open>GetInfo\<close> returns the
  record without an error, and \<open>Get\<close> fails.
\<close>

theorem expired_entry_visible:
  assumes "txn_Get (db c) (fileInfoPrefix @ key) = Inr val"
    and "Unmarshal_FileInfo J val = Some fi"
    and "After now (ExpiresAt fi)"
  shows "Exists c key = (True, None)
         \<and> GetInfo J c key = Inr (fi\<lparr>Key := key\<rparr>)
         \<and> Get J c key now now' = (Inl (Errorf ''file expired''), c)"
  using assms by (simp add: Exists_def GetInfo_def Get_def Get_view_def)

theorem expired_entry_visible_witness:
  "txn_Get (db cache_a) (fileInfoPrefix @ ''a'') = Inr ''1:a,1:5,10:text/plain,1:0,3:100,1:0,1:0,''
   \<and> Unmarshal_FileInfo netstring_json ''1:a,1:5,10:text/plain,1:0,3:100,1:0,1:0,''
       = Some \<lparr>Key = ''a'', Size = 5, MimeType = ''text/plain'', CreatedAt = 0,
                ExpiresAt = 100, AccessCount = 0, LastAccess = 0\<rparr>
   \<and> After 200 (ExpiresAt \<lparr>Key = ''a'', Size = 5, MimeType = ''text/plain'', CreatedAt = 0,
                ExpiresAt = 100, AccessCount = 0, LastAccess = 0\<rparr>)
   \<and> Exists cache_a ''a'' = (True, None)
   \<and> GetInfo netstring_json cache_a ''a''
       = Inr \<lparr>Key = ''a'', Size = 5, MimeType = ''text/plain'', CreatedAt = 0,
               ExpiresAt = 100, AccessCount = 0, LastAccess = 0\<rparr>
   \<and> Get netstring_json cache_a ''a'' 200 201 = (Inl (Errorf ''file expired''), cache_a)"
proof -
  have a: "txn_Get (db cache_a) (fileInfoPrefix @ ''a'')
             = Inr ''1:a,1:5,10:text/plain,1:0,3:100,1:0,1:0,''"
    by code_simp
  have b: "Unmarshal_FileInfo netstring_json ''1:a,1:5,10:text/plain,1:0,3:100,1:0,1:0,''
       = Some \<lparr>Key = ''a'', Size = 5, MimeType = ''text/plain'', CreatedAt = 0,
                ExpiresAt = 100, AccessCount = 0, LastAccess = 0\<rparr>"
    by code_simp
  have e: "After 200 (ExpiresAt \<lparr>Key = ''a'', Size = 5, MimeType = ''text/plain'', CreatedAt = 0,
                ExpiresAt = 100, AccessCount = 0, LastAccess = 0\<rparr>)"
    by (simp add: After_def)
  from expired_entry_visible [OF a b e, of 201] a b e show ?thesis by simp
qed

subsection \<open>C10: the record a successful Get returns\<close>

text \<open>
  Claim C10. The record returned by a successful \<open>Get\<close> is the stored record with the
  access already counted: its \<open>AccessCount\<close> is the stored count plus one (in
  \<^verbatim>\<open>int64\<close>) and its \<open>LastAccess\<close> is the clock reading of \<open>updateFileAccess\<close>.
\<close>

theorem Get_returns_updated_record:
  assumes "Get J c key now now' = (Inr (data, fi'), c')"
  shows "\<exists>val fi. txn_Get (db c) (fileInfoPrefix @ key) = Inr val
           \<and> Unmarshal_FileInfo J val = Some fi
           \<and> AccessCount fi' = AccessCount fi + 1
           \<and> LastAccess fi' = now'"
proof -
  from assms obtain fi where v: "Get_view J (db c) key now = Inr (data, fi)"
    and fi': "fi' = fi\<lparr>AccessCount := AccessCount fi + 1, LastAccess := now'\<rparr>"
    using Get_Inr by blast
  from v obtain val where "txn_Get (db c) (fileInfoPrefix @ key) = Inr val"
    and "Unmarshal_FileInfo J val = Some fi"
    unfolding Get_view_Inr by blast
  with fi' show ?thesis by simp
qed

theorem Get_returns_updated_record_witness:
  "Get netstring_json cache_a ''a'' 50 51 =
     (Inr (''Hello'', \<lparr>Key = ''a'', Size = 5, MimeType = ''text/plain'', CreatedAt = 0,
                       ExpiresAt = 100, AccessCount = 1, LastAccess = 51\<rparr>),
      cache_a\<lparr>db := (db cache_a)\<lparr>items :=
                 [(''file:a'', ''Hello''),
                  (''info:a'', ''1:a,1:5,10:text/plain,1:0,3:100,1:1,2:51,'')]\<rparr>,
               stats := (stats cache_a)\<lparr>HitRate := 1, MissRate := 0\<rparr>\<rparr>)
   \<and> (\<exists>val fi. txn_Get (db cache_a) (fileInfoPrefix @ ''a'') = Inr val
         \<and> Unmarshal_FileInfo netstring_json val = Some fi
         \<and> AccessCount \<lparr>Key = ''a'', Size = 5, MimeType = ''text/plain'', CreatedAt = 0,
                          ExpiresAt = 100, AccessCount = 1, LastAccess = 51\<rparr>
             = AccessCount fi + 1
         \<and> LastAccess \<lparr>Key = ''a'', Size = 5, MimeType = ''text/plain'', CreatedAt = 0,
                         ExpiresAt = 100, AccessCount = 1, LastAccess = 51\<rparr> = 51)"
proof -
  have h: "Get netstring_json cache_a ''a'' 50 51 =
     (Inr (''Hello'', \<lparr>Key = ''a'', Size = 5, MimeType = ''text/plain'', CreatedAt = 0,
                       ExpiresAt = 100, AccessCount = 1, LastAccess = 51\<rparr>),
      cache_a\<lparr>db := (db cache_a)\<lparr>items :=
                 [(''file:a'', ''Hello''),
                  (''info:a'', ''1:a,1:5,10:text/plain,1:0,3:100,1:1,2:51,'')]\<rparr>,
               stats := (stats cache_a)\<lparr>HitRate := 1, MissRate := 0\<rparr>\<rparr>)"
    by code_simp
  from Get_returns_updated_record [OF h] h show ?thesis by blast
qed

end
